theory Spec2Isabelle
  imports Complex_Main "HOL-Library.Word" "HOL-Library.Signed_Division" "HOL-Library.Log_Nat"
begin

section \<open>The position ledger (PortfolioTracker.sol)\<close>

text \<open>
  The contract keeps, per user address, a dynamic array of positions and a counter of the
  active ones. Solidity 0.8 arithmetic is checked: an increment of the largest
  \<open>uint256\<close> and a decrement of zero abort the call with \<open>Panic(0x11)\<close>, a write
  past the end of a memory array with \<open>Panic(0x32)\<close>, and a failed \<open>require\<close>
  with its message. An aborted call reverts every state change it made. Storage array
  lengths are natural numbers here; gas and the bounds on memory allocation are not
  part of the model.
\<close>

type_synonym address = "160 word"
type_synonym uint256 = "256 word"

record Position =
  token :: address
  amount :: uint256
  entryPrice :: uint256
  timestamp :: uint256
  protocol :: string
  active :: bool

record ledger =
  userPositions :: "address \<Rightarrow> Position list"
  positionCount :: "address \<Rightarrow> uint256"

datatype error = Revert string | Panic nat

datatype event =
    PositionAdded address uint256 address uint256 uint256 string
  | PositionRemoved address uint256
  | PositionUpdated address uint256 uint256 uint256

text \<open>The state of a freshly deployed contract: every mapping entry is zero.\<close>

definition init_ledger :: ledger where
  "init_ledger = \<lparr>userPositions = (\<lambda>_. []), positionCount = (\<lambda>_. 0)\<rparr>"

text \<open>The modifier \<open>validPositionId\<close>: \<open>None\<close> when both requirements pass.\<close>

definition validPositionId :: "ledger \<Rightarrow> address \<Rightarrow> uint256 \<Rightarrow> error option" where
  "validPositionId s sender positionId =
     (if \<not> unat positionId < length (userPositions s sender)
      then Some (Revert ''Invalid position ID'')
      else if \<not> active (userPositions s sender ! unat positionId)
      then Some (Revert ''Position is not active'')
      else None)"

text \<open>
  \<open>addPosition\<close>: \<open>sender\<close> is \<open>msg.sender\<close> and \<open>now\<close> is
  \<open>block.timestamp\<close>. The result carries the new state, the emitted event and the
  returned position id.
\<close>

definition addPosition ::
  "ledger \<Rightarrow> address \<Rightarrow> uint256 \<Rightarrow> address \<Rightarrow> uint256 \<Rightarrow> uint256 \<Rightarrow> string
     \<Rightarrow> error + (ledger \<times> event \<times> uint256)" where
  "addPosition s sender now tok amt price proto =
     (let newPosition = \<lparr>token = tok, amount = amt, entryPrice = price, timestamp = now,
                          protocol = proto, active = True\<rparr>;
          positions = userPositions s sender @ [newPosition];
          positionId = (of_nat (length positions - 1) :: uint256)
      in if positionCount s sender = - 1 then Inl (Panic 0x11)
         else Inr (s\<lparr>userPositions := (userPositions s)(sender := positions),
                      positionCount := (positionCount s)(sender := positionCount s sender + 1)\<rparr>,
                   PositionAdded sender positionId tok amt price proto,
                   positionId))"

definition removePosition ::
  "ledger \<Rightarrow> address \<Rightarrow> uint256 \<Rightarrow> error + (ledger \<times> event)" where
  "removePosition s sender positionId =
     (case validPositionId s sender positionId of
        Some e \<Rightarrow> Inl e
      | None \<Rightarrow>
          (let positions = userPositions s sender;
               positions' = positions[unat positionId := (positions ! unat positionId)\<lparr>active := False\<rparr>]
           in if positionCount s sender = 0 then Inl (Panic 0x11)
              else Inr (s\<lparr>userPositions := (userPositions s)(sender := positions'),
                           positionCount := (positionCount s)(sender := positionCount s sender - 1)\<rparr>,
                        PositionRemoved sender positionId)))"

definition updatePosition ::
  "ledger \<Rightarrow> address \<Rightarrow> uint256 \<Rightarrow> uint256 \<Rightarrow> uint256 \<Rightarrow> error + (ledger \<times> event)" where
  "updatePosition s sender positionId newAmount newEntryPrice =
     (case validPositionId s sender positionId of
        Some e \<Rightarrow> Inl e
      | None \<Rightarrow>
          (let positions = userPositions s sender;
               position = positions ! unat positionId;
               position' = position\<lparr>amount := newAmount\<rparr>;
               position'' = position'\<lparr>entryPrice := newEntryPrice\<rparr>
           in Inr (s\<lparr>userPositions := (userPositions s)(sender := positions[unat positionId := position''])\<rparr>,
                   PositionUpdated sender positionId newAmount newEntryPrice)))"

definition getPosition :: "ledger \<Rightarrow> address \<Rightarrow> uint256 \<Rightarrow> error + Position" where
  "getPosition s user positionId =
     (if \<not> unat positionId < length (userPositions s user)
      then Inl (Revert ''Invalid position ID'')
      else Inr (userPositions s user ! unat positionId))"

text \<open>A freshly allocated memory struct: every field is zero.\<close>

definition zeroPosition :: Position where
  "zeroPosition = \<lparr>token = 0, amount = 0, entryPrice = 0, timestamp = 0,
                    protocol = [], active = False\<rparr>"

text \<open>
  The loop of \<open>getAllPositions\<close>: the storage array is walked in index order, each
  active position is copied to \<open>activePositions[currentIndex]\<close>, and the write is
  bounds-checked against the length of the memory array.
\<close>

fun copyActive :: "Position list \<Rightarrow> nat \<Rightarrow> Position list \<Rightarrow> error + Position list" where
  "copyActive [] currentIndex activePositions = Inr activePositions"
| "copyActive (p # ps) currentIndex activePositions =
     (if active p
      then (if currentIndex < length activePositions
            then copyActive ps (Suc currentIndex) (activePositions[currentIndex := p])
            else Inl (Panic 0x32))
      else copyActive ps currentIndex activePositions)"

definition getAllPositions :: "ledger \<Rightarrow> address \<Rightarrow> error + Position list" where
  "getAllPositions s user =
     (let activeCount = positionCount s user;
          activePositions = replicate (unat activeCount) zeroPosition
      in copyActive (userPositions s user) 0 activePositions)"

definition getPositionCount :: "ledger \<Rightarrow> address \<Rightarrow> uint256" where
  "getPositionCount s user = positionCount s user"

subsection \<open>Transactions\<close>

text \<open>
  A transaction names its sender, the timestamp of its block and the state-changing
  function it calls. A call that aborts leaves the ledger as it was.
\<close>

datatype call =
    AddPosition address uint256 uint256 string
  | RemovePosition uint256
  | UpdatePosition uint256 uint256 uint256

datatype tx = Tx address uint256 call

fun exec :: "ledger \<Rightarrow> tx \<Rightarrow> ledger" where
  "exec s (Tx sender now (AddPosition tok amt price proto)) =
     (case addPosition s sender now tok amt price proto of
        Inl e \<Rightarrow> s | Inr (s', ev, pid) \<Rightarrow> s')"
| "exec s (Tx sender now (RemovePosition positionId)) =
     (case removePosition s sender positionId of Inl e \<Rightarrow> s | Inr (s', ev) \<Rightarrow> s')"
| "exec s (Tx sender now (UpdatePosition positionId newAmount newEntryPrice)) =
     (case updatePosition s sender positionId newAmount newEntryPrice of
        Inl e \<Rightarrow> s | Inr (s', ev) \<Rightarrow> s')"

definition run :: "ledger \<Rightarrow> tx list \<Rightarrow> ledger" where
  "run s txs = foldl exec s txs"

text \<open>The counter agrees with the active flags, for every user.\<close>

definition count_ok :: "ledger \<Rightarrow> bool" where
  "count_ok s \<longleftrightarrow>
     (\<forall>u. unat (positionCount s u) = length (filter active (userPositions s u)))"

section \<open>Token amounts (GraphService.formatTokenAmount, blockchain.ts)\<close>

subsection \<open>JavaScript numbers\<close>

text \<open>
  A JavaScript \<open>number\<close> is an IEEE 754 double: a finite value is a rational
  \<open>m * 2 ^ e\<close> with \<open>\<bar>m\<bar> < 2 ^ 53\<close> and \<open>- 1074 \<le> e \<le> 971\<close>; the two zeros
  are identified. \<open>toDouble\<close> is the conversion of an exact value to the nearest
  double, ties to the even significand, as \<open>parseFloat\<close> and \<open>Number\<close>
  perform it: \<open>floorLog2\<close> finds the binade, \<open>roundHalfEven\<close> rounds the
  significand, and a result of \<open>2 ^ 1024\<close> or more is an infinity.
\<close>

datatype js_error = SyntaxError | RangeError

datatype jsnumber = Finite rat | PosInfinity | NegInfinity | NaN

definition floorLog2 :: "rat \<Rightarrow> int" where
  "floorLog2 q =
     (if 1 \<le> q then bitlen \<lfloor>q\<rfloor> - 1 else - bitlen (\<lceil>1 / q\<rceil> - 1))"

definition roundHalfEven :: "rat \<Rightarrow> int" where
  "roundHalfEven q =
     (let f = \<lfloor>q\<rfloor>; r = q - of_int f
      in if r < 1 / 2 then f else if 1 / 2 < r then f + 1
         else if even f then f else f + 1)"

definition toDouble :: "rat \<Rightarrow> jsnumber" where
  "toDouble q =
     (if q = 0 then Finite 0
      else let a = \<bar>q\<bar>;
               e = max (floorLog2 a - 52) (- 1074);
               m = roundHalfEven (a / 2 powi e);
               r = of_int m * 2 powi e
           in if 2 ^ 1024 \<le> r then (if q < 0 then NegInfinity else PosInfinity)
              else Finite (if q < 0 then - r else r))"

fun negate :: "jsnumber \<Rightarrow> jsnumber" where
  "negate (Finite r) = Finite (- r)"
| "negate PosInfinity = NegInfinity"
| "negate NegInfinity = PosInfinity"
| "negate NaN = NaN"

subsection \<open>BigInt and strings\<close>

text \<open>
  \<open>toString\<close> is \<open>BigInt.prototype.toString\<close> in radix 10. \<open>BigInt\<close> applied
  to a string trims white space (the ASCII white space characters here), reads the empty
  string as 0, accepts an unsigned literal with prefix \<open>0x\<close>, \<open>0o\<close> or \<open>0b\<close>
  and an optionally signed decimal literal, and throws a SyntaxError on anything else.
\<close>

definition digitChar :: "nat \<Rightarrow> char" where
  "digitChar d = char_of (48 + d)"

fun digitsOf :: "nat \<Rightarrow> string" where
  "digitsOf n = (if n < 10 then [digitChar n] else digitsOf (n div 10) @ [digitChar (n mod 10)])"

declare digitsOf.simps [simp del]

definition toString :: "int \<Rightarrow> string" where
  "toString k = (if k < 0 then CHR ''-'' # digitsOf (nat (- k)) else digitsOf (nat k))"

definition isWhiteSpace :: "char \<Rightarrow> bool" where
  "isWhiteSpace c \<longleftrightarrow> (of_char c :: nat) \<in> {9, 10, 11, 12, 13, 32}"

definition trim :: "string \<Rightarrow> string" where
  "trim s = rev (dropWhile isWhiteSpace (rev (dropWhile isWhiteSpace s)))"

definition digitValue :: "char \<Rightarrow> nat option" where
  "digitValue c =
     (let n = (of_char c :: nat)
      in if 48 \<le> n \<and> n \<le> 57 then Some (n - 48)
         else if 97 \<le> n \<and> n \<le> 102 then Some (n - 87)
         else if 65 \<le> n \<and> n \<le> 70 then Some (n - 55)
         else None)"

definition isDigitOf :: "nat \<Rightarrow> char \<Rightarrow> bool" where
  "isDigitOf radix c = (case digitValue c of None \<Rightarrow> False | Some d \<Rightarrow> d < radix)"

definition digitsValue :: "nat \<Rightarrow> string \<Rightarrow> nat" where
  "digitsValue radix ds = foldl (\<lambda>acc c. acc * radix + the (digitValue c)) 0 ds"

definition fromDigits :: "nat \<Rightarrow> string \<Rightarrow> js_error + int" where
  "fromDigits radix ds =
     (if ds = [] \<or> \<not> list_all (isDigitOf radix) ds then Inl SyntaxError
      else Inr (int (digitsValue radix ds)))"

definition BigInt :: "string \<Rightarrow> js_error + int" where
  "BigInt s =
     (let t = trim s
      in if t = [] then Inr 0
         else if take 2 t = ''0x'' \<or> take 2 t = ''0X'' then fromDigits 16 (drop 2 t)
         else if take 2 t = ''0o'' \<or> take 2 t = ''0O'' then fromDigits 8 (drop 2 t)
         else if take 2 t = ''0b'' \<or> take 2 t = ''0B'' then fromDigits 2 (drop 2 t)
         else if hd t = CHR ''-'' then map_sum id uminus (fromDigits 10 (tl t))
         else if hd t = CHR ''+'' then fromDigits 10 (tl t)
         else fromDigits 10 t)"

subsection \<open>formatTokenAmount\<close>

text \<open>
  \<open>parseFloat\<close> skips leading white space and converts the longest prefix that is
  a decimal literal (sign, integer digits, a dot, fraction digits), or returns NaN when
  there is none. Exponent parts and the literal \<open>Infinity\<close> are left out: the strings
  that \<open>formatTokenAmount\<close> passes consist of digits, \<open>-\<close> and \<open>.\<close> only.

  \<open>formattedValue\<close> holds the lines of \<open>formatTokenAmount\<close> from the divisor to
  the template string; BigInt division and remainder truncate towards zero. The parameter
  \<open>decimals\<close> is taken to be an integral number; for a negative one the
  exponentiation throws a RangeError.
\<close>

definition padStart :: "string \<Rightarrow> nat \<Rightarrow> char \<Rightarrow> string" where
  "padStart s targetLength c = replicate (targetLength - length s) c @ s"

definition parseFloat :: "string \<Rightarrow> jsnumber" where
  "parseFloat s =
     (let t = dropWhile isWhiteSpace s;
          signed = (t \<noteq> [] \<and> (hd t = CHR ''-'' \<or> hd t = CHR ''+''));
          u = (if signed then tl t else t);
          ip = takeWhile (isDigitOf 10) u;
          r = dropWhile (isDigitOf 10) u;
          fp = (if r \<noteq> [] \<and> hd r = CHR ''.'' then takeWhile (isDigitOf 10) (tl r) else [])
      in if ip = [] \<and> fp = [] then NaN
         else let mv = of_nat (digitsValue 10 ip) + of_nat (digitsValue 10 fp) / 10 ^ length fp
              in if signed \<and> hd t = CHR ''-'' then negate (toDouble mv) else toDouble mv)"

definition formattedValue :: "int \<Rightarrow> nat \<Rightarrow> string" where
  "formattedValue v decs =
     (let divisor = 10 ^ decs;
          beforeDecimal = v sdiv divisor;
          afterDecimal = v smod divisor;
          afterDecimalStr = padStart (toString afterDecimal) decs CHR ''0''
      in toString beforeDecimal @ ''.'' @ afterDecimalStr)"

definition formatTokenAmount :: "string \<Rightarrow> int \<Rightarrow> js_error + jsnumber" where
  "formatTokenAmount amt decs =
     (if amt = [] \<or> amt = ''0'' then Inr (Finite 0)
      else case BigInt amt of
             Inl e \<Rightarrow> Inl e
           | Inr v \<Rightarrow> if decs < 0 then Inl RangeError
                      else Inr (parseFloat (formattedValue v (nat decs))))"

section \<open>Token metadata (BlockchainService.getTokenInfo, blockchain.ts)\<close>

text \<open>
  The service holds one provider per configured network and the token cache, keyed by
  the string \<open>network:address\<close>. A provider is represented by the URL it was created
  with. The three contract reads are answers of the chain, given as a parameter: each is a
  value or a rejection. \<open>Promise.all\<close> rejects with whichever rejection comes first,
  so the message carried by the second error is not modelled. One call is one step on the
  cache: it reads the cache at its start and writes it, if at all, at its end.
\<close>

type_synonym provider = string

record TokenInfo =
  address :: string
  symbol :: string
  decimals :: nat
  totalSupply :: string

record BlockchainService =
  providers :: "string \<rightharpoonup> provider"
  tokenCache :: "string \<rightharpoonup> TokenInfo"


datatype rpc_error = RpcError string

record TokenReads =
  symbolRead :: "rpc_error + string"
  decimalsRead :: "rpc_error + nat"
  totalSupplyRead :: "rpc_error + nat"

datatype service_error = ProviderNotFound string | FailedToFetchTokenInfo

definition cacheKey :: "string \<Rightarrow> string \<Rightarrow> string" where
  "cacheKey network tokenAddress = network @ '':'' @ tokenAddress"

definition networkOrDefault :: "string option \<Rightarrow> string" where
  "networkOrDefault network = (case network of None \<Rightarrow> ''ethereum'' | Some n \<Rightarrow> n)"

definition getTokenInfo ::
  "(provider \<Rightarrow> string \<Rightarrow> TokenReads) \<Rightarrow> BlockchainService \<Rightarrow> string \<Rightarrow> string option
     \<Rightarrow> (service_error + TokenInfo) \<times> BlockchainService" where
  "getTokenInfo chain svc tokenAddress network =
     (let net = networkOrDefault network;
          key = cacheKey net tokenAddress
      in case tokenCache svc key of
           Some cachedToken \<Rightarrow> (Inr cachedToken, svc)
         | None \<Rightarrow>
             (case providers svc net of
                None \<Rightarrow> (Inl (ProviderNotFound net), svc)
              | Some provider \<Rightarrow>
                  (let reads = chain provider tokenAddress
                   in case (symbolRead reads, decimalsRead reads, totalSupplyRead reads) of
                        (Inr symbolValue, Inr decimalsValue, Inr supplyValue) \<Rightarrow>
                          (let tokenInfo = \<lparr>address = tokenAddress, symbol = symbolValue, decimals = decimalsValue,
                                              totalSupply = toString (int supplyValue)\<rparr>
                           in (Inr tokenInfo, svc\<lparr>tokenCache := (tokenCache svc)(key \<mapsto> tokenInfo)\<rparr>))
                      | _ \<Rightarrow> (Inl FailedToFetchTokenInfo, svc))))"





section \<open>Risk score (calculateRiskScore, the portfolio hook)\<close>

text \<open>
  The hook computes with JavaScript numbers. Addition and division of doubles return the
  exact result rounded by \<open>toDouble\<close>, with the usual rules for NaN and the
  infinities; the two zeros are identified, so a zero divisor counts as \<open>+0\<close> (the
  divisor of \<open>calculateRiskScore\<close> is the length of a non-empty array). The length
  of an array is below \<open>2 ^ 32\<close> and therefore an exact number.
  \<open>pos.risk || 0\<close> replaces an absent risk and the falsy numbers 0 and NaN by 0.
\<close>

fun jsAdd :: "jsnumber \<Rightarrow> jsnumber \<Rightarrow> jsnumber" where
  "jsAdd (Finite a) (Finite b) = toDouble (a + b)"
| "jsAdd NaN y = NaN"
| "jsAdd x NaN = NaN"
| "jsAdd PosInfinity NegInfinity = NaN"
| "jsAdd NegInfinity PosInfinity = NaN"
| "jsAdd PosInfinity y = PosInfinity"
| "jsAdd x PosInfinity = PosInfinity"
| "jsAdd NegInfinity y = NegInfinity"
| "jsAdd x NegInfinity = NegInfinity"

fun jsDivide :: "jsnumber \<Rightarrow> jsnumber \<Rightarrow> jsnumber" where
  "jsDivide (Finite a) (Finite b) =
     (if b = 0 then (if a = 0 then NaN else if 0 < a then PosInfinity else NegInfinity)
      else toDouble (a / b))"
| "jsDivide NaN y = NaN"
| "jsDivide x NaN = NaN"
| "jsDivide (Finite a) y = Finite 0"
| "jsDivide PosInfinity (Finite b) = (if b < 0 then NegInfinity else PosInfinity)"
| "jsDivide NegInfinity (Finite b) = (if b < 0 then PosInfinity else NegInfinity)"
| "jsDivide x y = NaN"

record PortfolioPosition =
  id' :: string
  protocol' :: string
  type' :: string
  asset :: string
  value' :: jsnumber
  chainId :: jsnumber
  chainName :: string
  apr :: "jsnumber option"
  risk :: "jsnumber option"
  startDate :: int

definition calculateRiskScore :: "PortfolioPosition list \<Rightarrow> jsnumber" where
  "calculateRiskScore positions =
     (if length positions = 0 then Finite 0
      else let totalRisk =
                 foldl (\<lambda>sum pos. jsAdd sum (case risk pos of
                                                  None \<Rightarrow> Finite 0
                                                | Some r \<Rightarrow> if r = Finite 0 \<or> r = NaN then Finite 0 else r))
                       (Finite 0) positions
           in jsDivide totalRisk (Finite (of_nat (length positions))))"

section \<open>Properties of the ledger\<close>

subsection \<open>The counter invariant\<close>

lemma length_filter_update:
  "i < length xs \<Longrightarrow>
   length (filter P (xs[i := y])) + (if P (xs ! i) then 1 else 0)
     = length (filter P xs) + (if P y then 1 else 0)"
proof (induction xs arbitrary: i)
  case Nil
  then show ?case by simp
next
  case (Cons x xs)
  then show ?case by (cases i) auto
qed

lemma copyActive_fill:
  "currentIndex + length (filter active ps) \<le> length arr \<Longrightarrow>
   copyActive ps currentIndex arr =
     Inr (take currentIndex arr @ filter active ps
            @ drop (currentIndex + length (filter active ps)) arr)"
proof (induction ps arbitrary: currentIndex arr)
  case Nil
  then show ?case by simp
next
  case (Cons p ps)
  show ?case
  proof (cases "active p")
    case False
    with Cons show ?thesis by simp
  next
    case True
    with Cons.prems have lt: "currentIndex < length arr" by simp
    from True Cons.prems
    have "Suc currentIndex + length (filter active ps) \<le> length (arr[currentIndex := p])"
      by simp
    from Cons.IH [OF this] True lt show ?thesis
      by (simp add: take_Suc_conv_app_nth upd_conv_take_nth_drop add.commute)
  qed
qed

lemma unat_inc: "c \<noteq> - 1 \<Longrightarrow> unat (c + 1 :: uint256) = Suc (unat c)"
  by (simp add: add.commute add_eq_0_iff unatSuc)

lemma unat_dec: "c \<noteq> 0 \<Longrightarrow> unat (c - 1 :: uint256) = unat c - 1"
  by (metis unat_minus_one)

lemma count_ok_init: "count_ok init_ledger"
  by (simp add: count_ok_def init_ledger_def)

lemma addPosition_count_ok:
  assumes "count_ok s" and "addPosition s sender now tok amt price proto = Inr (s', ev, pid)"
  shows "count_ok s'"
  using assms
  by (auto simp: count_ok_def addPosition_def Let_def unat_inc split: if_splits)

lemma removePosition_count_ok:
  assumes ok: "count_ok s" and rm: "removePosition s sender positionId = Inr (s', ev)"
  shows "count_ok s'"
proof -
  let ?ps = "userPositions s sender"
  let ?i = "unat positionId"
  from rm have valid: "validPositionId s sender positionId = None"
    by (auto simp: removePosition_def split: option.splits)
  then have i: "?i < length ?ps" and act: "active (?ps ! ?i)"
    by (auto simp: validPositionId_def split: if_splits)
  from rm valid have nz: "positionCount s sender \<noteq> 0"
    and s': "s' = s\<lparr>userPositions := (userPositions s)(sender := ?ps[?i := (?ps ! ?i)\<lparr>active := False\<rparr>]),
                     positionCount := (positionCount s)(sender := positionCount s sender - 1)\<rparr>"
    by (auto simp: removePosition_def Let_def split: if_splits)
  from length_filter_update [OF i, of active "(?ps ! ?i)\<lparr>active := False\<rparr>"] act
  have "length (filter active (?ps[?i := (?ps ! ?i)\<lparr>active := False\<rparr>])) = length (filter active ?ps) - 1"
    by simp
  with ok nz show ?thesis
    by (auto simp: count_ok_def s' unat_dec)
qed

lemma updatePosition_count_ok:
  assumes ok: "count_ok s"
    and up: "updatePosition s sender positionId newAmount newEntryPrice = Inr (s', ev)"
  shows "count_ok s'"
proof -
  let ?ps = "userPositions s sender"
  let ?i = "unat positionId"
  let ?p = "(?ps ! ?i)\<lparr>amount := newAmount, entryPrice := newEntryPrice\<rparr>"
  from up have valid: "validPositionId s sender positionId = None"
    by (auto simp: updatePosition_def split: option.splits)
  then have i: "?i < length ?ps"
    by (auto simp: validPositionId_def split: if_splits)
  from up valid have s': "s' = s\<lparr>userPositions := (userPositions s)(sender := ?ps[?i := ?p])\<rparr>"
    by (auto simp: updatePosition_def Let_def)
  from length_filter_update [OF i, of active ?p]
  have "length (filter active (?ps[?i := ?p])) = length (filter active ?ps)"
    by simp
  with ok show ?thesis
    by (auto simp: count_ok_def s')
qed

lemma exec_count_ok: "count_ok s \<Longrightarrow> count_ok (exec s t)"
proof (cases t)
  case (Tx sender now c)
  assume "count_ok s"
  then show ?thesis unfolding Tx
    by (cases c)
       (auto split: sum.splits
             dest: addPosition_count_ok removePosition_count_ok updatePosition_count_ok)
qed

lemma run_count_ok: "count_ok s \<Longrightarrow> count_ok (run s txs)"
  unfolding run_def by (induction txs arbitrary: s) (simp_all add: exec_count_ok)

lemma getAllPositions_filter:
  assumes "count_ok s"
  shows "getAllPositions s user = Inr (filter active (userPositions s user))"
proof -
  from assms have n: "unat (positionCount s user) = length (filter active (userPositions s user))"
    by (simp add: count_ok_def)
  show ?thesis
    unfolding getAllPositions_def Let_def n
    by (subst copyActive_fill) simp_all
qed

lemma exec_inactive:
  assumes "i < length (userPositions s u)" and "\<not> active (userPositions s u ! i)"
  shows "i < length (userPositions (exec s t) u) \<and> \<not> active (userPositions (exec s t) u ! i)"
proof (cases t)
  case (Tx sender now c)
  show ?thesis
  proof (cases c)
    case (AddPosition tok amt price proto)
    with assms Tx show ?thesis
      by (auto simp: addPosition_def Let_def nth_append split: if_splits)
  next
    case (RemovePosition positionId)
    with assms Tx show ?thesis
      by (auto simp: removePosition_def validPositionId_def Let_def nth_list_update split: if_splits option.splits)
  next
    case (UpdatePosition positionId newAmount newEntryPrice)
    with assms Tx show ?thesis
      by (auto simp: updatePosition_def validPositionId_def Let_def nth_list_update split: if_splits option.splits)
  qed
qed

lemma run_inactive:
  assumes "i < length (userPositions s u)" and "\<not> active (userPositions s u ! i)"
  shows "i < length (userPositions (run s txs) u) \<and> \<not> active (userPositions (run s txs) u ! i)"
  using assms unfolding run_def
proof (induction txs arbitrary: s)
  case Nil
  then show ?case by simp
next
  case (Cons t txs)
  from exec_inactive [OF Cons.prems, of t] Cons.IH [of "exec s t"] show ?case by simp
qed

lemma count_ok_active_nonzero:
  assumes "count_ok s" and "i < length (userPositions s u)" and "active (userPositions s u ! i)"
  shows "positionCount s u \<noteq> 0"
proof -
  from assms(2,3) have "userPositions s u ! i \<in> set (filter active (userPositions s u))"
    by simp
  then have "0 < length (filter active (userPositions s u))"
    by (metis length_pos_if_in_set)
  with assms(1) have "0 < unat (positionCount s u)"
    by (simp add: count_ok_def)
  then show ?thesis by auto
qed

lemma exec_length_mono: "length (userPositions s u) \<le> length (userPositions (exec s t) u)"
proof (cases t)
  case (Tx sender now c)
  show ?thesis unfolding Tx
    by (cases c)
       (auto simp: addPosition_def removePosition_def updatePosition_def Let_def
             split: if_splits option.splits)
qed

lemma run_length_mono: "length (userPositions s u) \<le> length (userPositions (run s txs) u)"
  unfolding run_def
proof (induction txs arbitrary: s)
  case Nil
  show ?case by simp
next
  case (Cons t txs)
  from exec_length_mono [of s u t] Cons [of "exec s t"] show ?case by simp
qed

lemma filter_by_index:
  "filter P xs = map (\<lambda>j. xs ! j) (filter (\<lambda>j. P (xs ! j)) [0..<length xs])"
proof -
  have "filter P xs = filter P (map (\<lambda>j. xs ! j) [0..<length xs])"
    by (simp add: map_nth)
  also have "\<dots> = map (\<lambda>j. xs ! j) (filter (\<lambda>j. P (xs ! j)) [0..<length xs])"
    by (simp add: filter_map comp_def)
  finally show ?thesis .
qed

lemmas ledger_eval =
  run_def init_ledger_def addPosition_def removePosition_def updatePosition_def
  validPositionId_def getPosition_def getAllPositions_def getPositionCount_def
  zeroPosition_def Let_def

subsection \<open>Counting active positions\<close>

text \<open>
  C1. After any sequence of transactions on a freshly deployed ledger (calls that abort
  included, since they change nothing), and for every owner, \<open>getPositionCount\<close> is
  the number of the owner's positions whose \<open>active\<close> flag is set, and
  \<open>getAllPositions\<close> returns an array of exactly that length.
\<close>

theorem positionCount_counts_active:
  "unat (getPositionCount (run init_ledger txs) owner)
     = length (filter active (userPositions (run init_ledger txs) owner))
   \<and> (\<exists>ps. getAllPositions (run init_ledger txs) owner = Inr ps
          \<and> length ps = unat (getPositionCount (run init_ledger txs) owner))"
proof -
  have ok: "count_ok (run init_ledger txs)"
    by (rule run_count_ok [OF count_ok_init])
  then have "unat (positionCount (run init_ledger txs) owner)
      = length (filter active (userPositions (run init_ledger txs) owner))"
    by (simp add: count_ok_def)
  with getAllPositions_filter [OF ok, of owner] show ?thesis
    by (simp add: getPositionCount_def)
qed

theorem positionCount_counts_active_witness:
  "unat (getPositionCount (run init_ledger
       [Tx 1 100 (AddPosition 7 5 6 ''Aave''), Tx 1 101 (AddPosition 8 1 2 ''Uniswap''),
        Tx 1 102 (RemovePosition 0), Tx 1 103 (RemovePosition 0)]) 1) = 1
   \<and> length (filter active (userPositions (run init_ledger
       [Tx 1 100 (AddPosition 7 5 6 ''Aave''), Tx 1 101 (AddPosition 8 1 2 ''Uniswap''),
        Tx 1 102 (RemovePosition 0), Tx 1 103 (RemovePosition 0)]) 1)) = 1"
  using positionCount_counts_active
    [of "[Tx 1 100 (AddPosition 7 5 6 ''Aave''), Tx 1 101 (AddPosition 8 1 2 ''Uniswap''),
          Tx 1 102 (RemovePosition 0), Tx 1 103 (RemovePosition 0)]" 1]
  by (simp add: ledger_eval)

subsection \<open>Soft deletion is final\<close>

text \<open>
  C2. In a ledger reached from deployment, a position whose \<open>active\<close> flag is
  false keeps its index and stays inactive under every further sequence of
  transactions, and \<open>getAllPositions\<close> then returns the positions at the active
  indices only, so the index of that position is never among them.
\<close>

theorem inactive_is_terminal:
  assumes "i < length (userPositions (run init_ledger txs0) owner)"
    and "\<not> active (userPositions (run init_ledger txs0) owner ! i)"
  shows "i < length (userPositions (run (run init_ledger txs0) txs) owner)
     \<and> \<not> active (userPositions (run (run init_ledger txs0) txs) owner ! i)
     \<and> getAllPositions (run (run init_ledger txs0) txs) owner
         = Inr (map (\<lambda>j. userPositions (run (run init_ledger txs0) txs) owner ! j)
                  (filter (\<lambda>j. active (userPositions (run (run init_ledger txs0) txs) owner ! j))
                     [0..<length (userPositions (run (run init_ledger txs0) txs) owner)]))
     \<and> i \<notin> set (filter (\<lambda>j. active (userPositions (run (run init_ledger txs0) txs) owner ! j))
                     [0..<length (userPositions (run (run init_ledger txs0) txs) owner)])"
proof -
  let ?s' = "run (run init_ledger txs0) txs"
  from run_inactive [OF assms, of txs]
  have stay: "i < length (userPositions ?s' owner)" "\<not> active (userPositions ?s' owner ! i)"
    by simp_all
  have "count_ok ?s'"
    by (intro run_count_ok count_ok_init)
  then have "getAllPositions ?s' owner = Inr (filter active (userPositions ?s' owner))"
    by (rule getAllPositions_filter)
  also have "filter active (userPositions ?s' owner)
      = map (\<lambda>j. userPositions ?s' owner ! j)
          (filter (\<lambda>j. active (userPositions ?s' owner ! j)) [0..<length (userPositions ?s' owner)])"
    by (rule filter_by_index)
  finally show ?thesis using stay by simp
qed

theorem inactive_is_terminal_witness:
  "0 < length (userPositions (run init_ledger
        [Tx 1 100 (AddPosition 7 5 6 ''Aave''), Tx 1 101 (RemovePosition 0)]) 1)
   \<and> \<not> active (userPositions (run init_ledger
        [Tx 1 100 (AddPosition 7 5 6 ''Aave''), Tx 1 101 (RemovePosition 0)]) 1 ! 0)
   \<and> \<not> active (userPositions (run (run init_ledger
        [Tx 1 100 (AddPosition 7 5 6 ''Aave''), Tx 1 101 (RemovePosition 0)])
        [Tx 1 102 (AddPosition 8 1 2 ''Uniswap''), Tx 1 103 (UpdatePosition 0 9 9),
         Tx 1 104 (RemovePosition 0)]) 1 ! 0)"
proof -
  let ?txs0 = "[Tx 1 100 (AddPosition 7 5 6 ''Aave''), Tx 1 101 (RemovePosition 0)]"
  have h1: "0 < length (userPositions (run init_ledger ?txs0) 1)"
    by (simp add: ledger_eval)
  have h2: "\<not> active (userPositions (run init_ledger ?txs0) 1 ! 0)"
    by (simp add: ledger_eval)
  from inactive_is_terminal [OF h1 h2] h1 h2 show ?thesis
    by blast
qed

subsection \<open>What getAllPositions returns\<close>

text \<open>
  C3. In a ledger reached from deployment, \<open>getAllPositions\<close> returns the owner's
  positions with \<open>active = true\<close>, all of them and no others, in the order of their
  ledger indices and without gaps; an entry's place in the result is therefore its rank
  among the active positions, not its ledger index.
\<close>

theorem getAllPositions_active_in_order:
  "getAllPositions (run init_ledger txs) owner
     = Inr (filter active (userPositions (run init_ledger txs) owner))"
  by (rule getAllPositions_filter [OF run_count_ok [OF count_ok_init]])

theorem getAllPositions_active_in_order_witness:
  "getAllPositions (run init_ledger
       [Tx 1 100 (AddPosition 7 5 6 ''Aave''), Tx 1 101 (AddPosition 8 1 2 ''Uniswap''),
        Tx 1 102 (RemovePosition 0)]) 1
     = Inr [\<lparr>token = 8, amount = 1, entryPrice = 2, timestamp = 101,
             protocol = ''Uniswap'', active = True\<rparr>]"
  using getAllPositions_active_in_order
    [of "[Tx 1 100 (AddPosition 7 5 6 ''Aave''), Tx 1 101 (AddPosition 8 1 2 ''Uniswap''),
          Tx 1 102 (RemovePosition 0)]" 1]
  by (simp add: ledger_eval)

subsection \<open>removePosition\<close>

text \<open>
  C7. \<open>removePosition\<close> aborts with "Invalid position ID" when the index is not
  below the length of the sender's array, and with "Position is not active" when the
  position at the index is inactive; in both cases the ledger is unchanged. When the
  index is valid, the position active and the counter not zero, the call succeeds; in a
  ledger reached from deployment it succeeds for every valid index of an active
  position. On success the position at the index is the old one with only \<open>active\<close>
  cleared (amount and entry price are retained), every other position of every user is
  unchanged, and the sender's counter is decremented.
\<close>

theorem removePosition_outcomes:
  "(\<not> unat i < length (userPositions s sender) \<longrightarrow>
       removePosition s sender i = Inl (Revert ''Invalid position ID'')
     \<and> exec s (Tx sender now (RemovePosition i)) = s)
   \<and> (unat i < length (userPositions s sender) \<and> \<not> active (userPositions s sender ! unat i) \<longrightarrow>
       removePosition s sender i = Inl (Revert ''Position is not active'')
     \<and> exec s (Tx sender now (RemovePosition i)) = s)
   \<and> (unat i < length (userPositions s sender) \<and> active (userPositions s sender ! unat i)
        \<and> positionCount s sender \<noteq> 0 \<longrightarrow>
       removePosition s sender i
         = Inr (s\<lparr>userPositions := (userPositions s)
                     (sender := (userPositions s sender)
                        [unat i := (userPositions s sender ! unat i)\<lparr>active := False\<rparr>]),
                  positionCount := (positionCount s)(sender := positionCount s sender - 1)\<rparr>,
                PositionRemoved sender i))
   \<and> (unat i < length (userPositions (run init_ledger txs) sender)
        \<and> active (userPositions (run init_ledger txs) sender ! unat i) \<longrightarrow>
       \<not> isl (removePosition (run init_ledger txs) sender i))
   \<and> (\<forall>s' ev. removePosition s sender i = Inr (s', ev) \<longrightarrow>
        length (userPositions s' sender) = length (userPositions s sender)
      \<and> userPositions s' sender ! unat i = (userPositions s sender ! unat i)\<lparr>active := False\<rparr>
      \<and> amount (userPositions s' sender ! unat i) = amount (userPositions s sender ! unat i)
      \<and> entryPrice (userPositions s' sender ! unat i) = entryPrice (userPositions s sender ! unat i)
      \<and> \<not> active (userPositions s' sender ! unat i)
      \<and> (\<forall>j. j \<noteq> unat i \<longrightarrow> userPositions s' sender ! j = userPositions s sender ! j)
      \<and> (\<forall>u. u \<noteq> sender \<longrightarrow> userPositions s' u = userPositions s u
                             \<and> positionCount s' u = positionCount s u))"
proof (intro conjI)
  show "\<not> unat i < length (userPositions s sender) \<longrightarrow>
       removePosition s sender i = Inl (Revert ''Invalid position ID'')
     \<and> exec s (Tx sender now (RemovePosition i)) = s"
    by (simp add: removePosition_def validPositionId_def)
  show "unat i < length (userPositions s sender) \<and> \<not> active (userPositions s sender ! unat i) \<longrightarrow>
       removePosition s sender i = Inl (Revert ''Position is not active'')
     \<and> exec s (Tx sender now (RemovePosition i)) = s"
    by (simp add: removePosition_def validPositionId_def)
  show "unat i < length (userPositions s sender) \<and> active (userPositions s sender ! unat i)
        \<and> positionCount s sender \<noteq> 0 \<longrightarrow>
       removePosition s sender i
         = Inr (s\<lparr>userPositions := (userPositions s)
                     (sender := (userPositions s sender)
                        [unat i := (userPositions s sender ! unat i)\<lparr>active := False\<rparr>]),
                  positionCount := (positionCount s)(sender := positionCount s sender - 1)\<rparr>,
                PositionRemoved sender i)"
    by (simp add: removePosition_def validPositionId_def Let_def)
  show "unat i < length (userPositions (run init_ledger txs) sender)
        \<and> active (userPositions (run init_ledger txs) sender ! unat i) \<longrightarrow>
       \<not> isl (removePosition (run init_ledger txs) sender i)"
  proof
    let ?r = "run init_ledger txs"
    assume a: "unat i < length (userPositions ?r sender)
        \<and> active (userPositions ?r sender ! unat i)"
    have "count_ok ?r" by (rule run_count_ok [OF count_ok_init])
    with a have "positionCount ?r sender \<noteq> 0"
      by (intro count_ok_active_nonzero [of ?r "unat i"]) simp_all
    with a show "\<not> isl (removePosition ?r sender i)"
      by (simp add: removePosition_def validPositionId_def Let_def)
  qed
  show "\<forall>s' ev. removePosition s sender i = Inr (s', ev) \<longrightarrow>
        length (userPositions s' sender) = length (userPositions s sender)
      \<and> userPositions s' sender ! unat i = (userPositions s sender ! unat i)\<lparr>active := False\<rparr>
      \<and> amount (userPositions s' sender ! unat i) = amount (userPositions s sender ! unat i)
      \<and> entryPrice (userPositions s' sender ! unat i) = entryPrice (userPositions s sender ! unat i)
      \<and> \<not> active (userPositions s' sender ! unat i)
      \<and> (\<forall>j. j \<noteq> unat i \<longrightarrow> userPositions s' sender ! j = userPositions s sender ! j)
      \<and> (\<forall>u. u \<noteq> sender \<longrightarrow> userPositions s' u = userPositions s u
                             \<and> positionCount s' u = positionCount s u)"
    by (auto simp: removePosition_def validPositionId_def Let_def split: if_splits)
qed

theorem removePosition_outcomes_witness:
  "removePosition init_ledger 1 0 = Inl (Revert ''Invalid position ID'')
   \<and> removePosition (run init_ledger
        [Tx 1 100 (AddPosition 7 5 6 ''Aave''), Tx 1 101 (RemovePosition 0)]) 1 0
       = Inl (Revert ''Position is not active'')
   \<and> \<not> isl (removePosition (run init_ledger [Tx 1 100 (AddPosition 7 5 6 ''Aave'')]) 1 0)"
proof -
  let ?s1 = "run init_ledger [Tx 1 100 (AddPosition 7 5 6 ''Aave''), Tx 1 101 (RemovePosition 0)]"
  let ?s2 = "run init_ledger [Tx 1 100 (AddPosition 7 5 6 ''Aave'')]"
  have a: "\<not> unat (0 :: uint256) < length (userPositions init_ledger 1)"
    by (simp add: ledger_eval)
  have b: "unat (0 :: uint256) < length (userPositions ?s1 1)
      \<and> \<not> active (userPositions ?s1 1 ! unat (0 :: uint256))"
    by (simp add: ledger_eval)
  have c: "unat (0 :: uint256) < length (userPositions ?s2 1)
      \<and> active (userPositions ?s2 1 ! unat (0 :: uint256)) \<and> positionCount ?s2 1 \<noteq> 0"
    by (simp add: ledger_eval)
  note r1 = removePosition_outcomes [where i = 0 and s = init_ledger and sender = 1 and now = 100 and txs = "[]", THEN conjunct1, THEN mp, OF a,
      THEN conjunct1]
  note r2 = removePosition_outcomes [where i = 0 and s = ?s1 and sender = 1 and now = 100 and txs = "[]", THEN conjunct2, THEN conjunct1, THEN mp,
      OF b, THEN conjunct1]
  note r3 = removePosition_outcomes [where i = 0 and s = ?s2 and sender = 1 and now = 100 and txs = "[]", THEN conjunct2, THEN conjunct2,
      THEN conjunct1, THEN mp, OF c]
  have "\<not> isl (removePosition ?s2 1 0)"
    by (subst r3) (rule sum.disc)
  with r1 r2 show ?thesis
    by (intro conjI)
qed

subsection \<open>updatePosition\<close>

text \<open>
  C9. A successful \<open>updatePosition\<close> was called on a valid index of an active
  position; it sets the amount and the entry price of that position and leaves its
  token, timestamp, protocol label and active flag, every other position of the sender,
  the positions of every other user and all counters as they were.
\<close>

theorem updatePosition_frame:
  assumes "updatePosition s sender i newAmount newEntryPrice = Inr (s', ev)"
  shows "positionCount s' = positionCount s
     \<and> (\<forall>u. u \<noteq> sender \<longrightarrow> userPositions s' u = userPositions s u)
     \<and> length (userPositions s' sender) = length (userPositions s sender)
     \<and> (\<forall>j. j \<noteq> unat i \<longrightarrow> userPositions s' sender ! j = userPositions s sender ! j)
     \<and> amount (userPositions s' sender ! unat i) = newAmount
     \<and> entryPrice (userPositions s' sender ! unat i) = newEntryPrice
     \<and> token (userPositions s' sender ! unat i) = token (userPositions s sender ! unat i)
     \<and> timestamp (userPositions s' sender ! unat i) = timestamp (userPositions s sender ! unat i)
     \<and> protocol (userPositions s' sender ! unat i) = protocol (userPositions s sender ! unat i)
     \<and> active (userPositions s' sender ! unat i) = active (userPositions s sender ! unat i)
     \<and> unat i < length (userPositions s sender)
     \<and> active (userPositions s sender ! unat i)"
  using assms
  by (auto simp: updatePosition_def validPositionId_def Let_def split: if_splits)

theorem updatePosition_frame_witness:
  "updatePosition (run init_ledger [Tx 1 100 (AddPosition 7 5 6 ''Aave'')]) 1 0 9 10
     = Inr (projr (updatePosition (run init_ledger [Tx 1 100 (AddPosition 7 5 6 ''Aave'')]) 1 0 9 10))
   \<and> amount (userPositions (fst (projr (updatePosition
        (run init_ledger [Tx 1 100 (AddPosition 7 5 6 ''Aave'')]) 1 0 9 10))) 1 ! unat (0 :: uint256)) = 9
   \<and> protocol (userPositions (fst (projr (updatePosition
        (run init_ledger [Tx 1 100 (AddPosition 7 5 6 ''Aave'')]) 1 0 9 10))) 1 ! unat (0 :: uint256))
       = ''Aave''"
proof -
  let ?s = "run init_ledger [Tx 1 100 (AddPosition 7 5 6 ''Aave'')]"
  let ?r = "projr (updatePosition ?s 1 0 9 10)"
  have h: "updatePosition ?s 1 0 9 10 = Inr (fst ?r, snd ?r)"
    by (simp add: ledger_eval)
  have p: "protocol (userPositions ?s 1 ! unat (0 :: uint256)) = ''Aave''"
    by (simp add: ledger_eval)
  from updatePosition_frame [OF h] h p show ?thesis
    by simp
qed

subsection \<open>getPosition\<close>

text \<open>
  C10. \<open>getPosition\<close> returns the stored record for every index below the length of
  the user's array, whatever its \<open>active\<close> flag, and aborts with
  "Invalid position ID" for every other index. The array never shrinks, so an index that
  can be read stays readable after any sequence of transactions; in particular, right
  after a successful \<open>removePosition\<close> the removed record is still read at its index,
  with its flag cleared.
\<close>

theorem getPosition_reads_by_index:
  "(unat i < length (userPositions s user) \<longrightarrow>
      getPosition s user i = Inr (userPositions s user ! unat i)
      \<and> \<not> isl (getPosition (run s txs) user i))
   \<and> (\<not> unat i < length (userPositions s user) \<longrightarrow>
      getPosition s user i = Inl (Revert ''Invalid position ID''))
   \<and> (\<forall>s' ev. removePosition s user i = Inr (s', ev) \<longrightarrow>
      getPosition s' user i = Inr ((userPositions s user ! unat i)\<lparr>active := False\<rparr>))"
proof (intro conjI)
  show "unat i < length (userPositions s user) \<longrightarrow>
      getPosition s user i = Inr (userPositions s user ! unat i)
      \<and> \<not> isl (getPosition (run s txs) user i)"
  proof
    assume a: "unat i < length (userPositions s user)"
    with run_length_mono [of s user txs]
    have "unat i < length (userPositions (run s txs) user)" by simp
    with a show "getPosition s user i = Inr (userPositions s user ! unat i)
        \<and> \<not> isl (getPosition (run s txs) user i)"
      by (simp add: getPosition_def)
  qed
  show "\<not> unat i < length (userPositions s user) \<longrightarrow>
      getPosition s user i = Inl (Revert ''Invalid position ID'')"
    by (simp add: getPosition_def)
  show "\<forall>s' ev. removePosition s user i = Inr (s', ev) \<longrightarrow>
      getPosition s' user i = Inr ((userPositions s user ! unat i)\<lparr>active := False\<rparr>)"
    by (auto simp: getPosition_def removePosition_def validPositionId_def Let_def
             split: if_splits)
qed

theorem getPosition_reads_by_index_witness:
  "getPosition init_ledger 1 0 = Inl (Revert ''Invalid position ID'')
   \<and> getPosition (run init_ledger
        [Tx 1 100 (AddPosition 7 5 6 ''Aave''), Tx 1 101 (RemovePosition 0)]) 1 0
       = Inr \<lparr>token = 7, amount = 5, entryPrice = 6, timestamp = 100,
              protocol = ''Aave'', active = False\<rparr>"
proof -
  let ?s1 = "run init_ledger [Tx 1 100 (AddPosition 7 5 6 ''Aave''), Tx 1 101 (RemovePosition 0)]"
  have a: "\<not> unat (0 :: uint256) < length (userPositions init_ledger 1)"
    by (simp add: ledger_eval)
  have b: "unat (0 :: uint256) < length (userPositions ?s1 1)"
    by (simp add: ledger_eval)
  have v: "userPositions ?s1 1 ! unat (0 :: uint256)
      = \<lparr>token = 7, amount = 5, entryPrice = 6, timestamp = 100,
         protocol = ''Aave'', active = False\<rparr>"
    by (simp add: ledger_eval)
  from getPosition_reads_by_index [where i = 0 and s = init_ledger and user = 1 and txs = "[]"] a
  have 1: "getPosition init_ledger 1 0 = Inl (Revert ''Invalid position ID'')"
    by blast
  from getPosition_reads_by_index [where i = 0 and s = ?s1 and user = 1 and txs = "[]"] b
  have 2: "getPosition ?s1 1 0 = Inr (userPositions ?s1 1 ! unat (0 :: uint256))"
    by blast
  from 1 2 v show ?thesis by simp
qed

section \<open>Properties of token-amount formatting\<close>

subsection \<open>Digits\<close>

lemma digitValue_digitChar: "d < 10 \<Longrightarrow> digitValue (digitChar d) = Some d"
  by (simp add: digitValue_def digitChar_def Let_def)

lemma isDigitOf_digitChar: "d < 10 \<Longrightarrow> isDigitOf 10 (digitChar d)"
  by (simp add: isDigitOf_def digitValue_digitChar)

lemma digitsOf_not_Nil: "digitsOf n \<noteq> []"
  by (subst digitsOf.simps) simp

lemma digitsOf_all_digits: "list_all (isDigitOf 10) (digitsOf n)"
proof (induction n rule: digitsOf.induct)
  case (1 n)
  show ?case
  proof (cases "n < 10")
    case True
    then show ?thesis by (subst digitsOf.simps) (simp add: isDigitOf_digitChar)
  next
    case False
    with 1 show ?thesis by (subst digitsOf.simps) (simp add: isDigitOf_digitChar)
  qed
qed

lemma digitsValue_snoc:
  "digitsValue radix (ds @ [c]) = digitsValue radix ds * radix + the (digitValue c)"
  by (simp add: digitsValue_def)

lemma digitsValue_digitsOf: "digitsValue 10 (digitsOf n) = n"
proof (induction n rule: digitsOf.induct)
  case (1 n)
  show ?case
  proof (cases "n < 10")
    case True
    then show ?thesis
      by (subst digitsOf.simps) (simp add: digitsValue_def digitValue_digitChar)
  next
    case False
    with 1 have "digitsValue 10 (digitsOf (n div 10)) = n div 10" by simp
    with False show ?thesis
      by (subst digitsOf.simps) (simp add: digitsValue_snoc digitValue_digitChar)
  qed
qed

lemma length_digitsOf: "n < 10 ^ d \<Longrightarrow> 0 < d \<Longrightarrow> length (digitsOf n) \<le> d"
proof (induction n arbitrary: d rule: digitsOf.induct)
  case (1 n)
  show ?case
  proof (cases "n < 10")
    case True
    with 1 show ?thesis by (subst digitsOf.simps) simp
  next
    case False
    obtain d' where d: "d = Suc d'" using "1.prems" by (cases d) auto
    with False "1.prems" have "0 < d'" by (cases d') auto
    moreover from "1.prems" d have "n div 10 < 10 ^ d'"
      by (simp add: less_mult_imp_div_less mult.commute)
    ultimately have "length (digitsOf (n div 10)) \<le> d'"
      using "1.IH" False by simp
    with False d show ?thesis by (subst digitsOf.simps) simp
  qed
qed

lemma digit_not_space: "isDigitOf 10 c \<Longrightarrow> \<not> isWhiteSpace c"
  by (auto simp: isDigitOf_def digitValue_def isWhiteSpace_def Let_def split: if_splits option.splits)

lemma trim_digits: "list_all (isDigitOf 10) ds \<Longrightarrow> trim ds = ds"
proof -
  assume a: "list_all (isDigitOf 10) ds"
  then have 1: "dropWhile isWhiteSpace ds = ds"
    by (cases ds) (auto simp: digit_not_space)
  from a have "list_all (isDigitOf 10) (rev ds)" by (simp add: list_all_iff)
  then have "dropWhile isWhiteSpace (rev ds) = rev ds"
    by (cases "rev ds") (auto simp: digit_not_space)
  with 1 show ?thesis by (simp add: trim_def)
qed

lemma BigInt_digits:
  assumes "list_all (isDigitOf 10) ds" and "ds \<noteq> []"
  shows "BigInt ds = Inr (int (digitsValue 10 ds))"
proof -
  obtain c cs where ds: "ds = c # cs" using assms(2) by (cases ds) auto
  with assms(1) have c: "isDigitOf 10 c" by simp
  have x: "\<not> isDigitOf 10 CHR ''x''" "\<not> isDigitOf 10 CHR ''X''" "\<not> isDigitOf 10 CHR ''o''"
    "\<not> isDigitOf 10 CHR ''O''" "\<not> isDigitOf 10 CHR ''b''" "\<not> isDigitOf 10 CHR ''B''"
    "\<not> isDigitOf 10 CHR ''-''" "\<not> isDigitOf 10 CHR ''+''"
    by (simp_all add: isDigitOf_def digitValue_def)
  have "take 2 ds \<noteq> [c1, c2]" if "\<not> isDigitOf 10 c2" for c1 c2
    using that assms(1) ds by (cases cs) auto
  with x have p: "take 2 ds \<noteq> ''0x''" "take 2 ds \<noteq> ''0X''" "take 2 ds \<noteq> ''0o''"
    "take 2 ds \<noteq> ''0O''" "take 2 ds \<noteq> ''0b''" "take 2 ds \<noteq> ''0B''"
    by blast+
  from c x have h: "hd ds \<noteq> CHR ''-''" "hd ds \<noteq> CHR ''+''"
    by (auto simp: ds)
  show ?thesis
    using assms p h by (simp add: BigInt_def trim_digits fromDigits_def)
qed

lemma BigInt_toString: "0 \<le> v \<Longrightarrow> BigInt (toString v) = Inr v"
  by (simp add: toString_def BigInt_digits digitsOf_all_digits digitsOf_not_Nil digitsValue_digitsOf)

lemma digitsValue_zeros:
  "digitsValue 10 (replicate k CHR ''0'' @ ds) = digitsValue 10 ds"
proof -
  have "foldl (\<lambda>acc c. acc * 10 + the (digitValue c)) 0 (replicate k CHR ''0'') = 0"
    by (induction k) (simp_all add: digitValue_def)
  then show ?thesis by (simp add: digitsValue_def)
qed

lemma isDigitOf_zero: "isDigitOf 10 CHR ''0''"
  by (simp add: isDigitOf_def digitValue_def)

lemma padStart_all_digits:
  "list_all (isDigitOf 10) ds \<Longrightarrow> list_all (isDigitOf 10) (padStart ds n CHR ''0'')"
  by (auto simp: padStart_def list_all_iff isDigitOf_zero)

lemma parseFloat_decimal:
  assumes ip: "list_all (isDigitOf 10) ip" "ip \<noteq> []" and fp: "list_all (isDigitOf 10) fp"
  shows "parseFloat (ip @ ''.'' @ fp)
     = toDouble (of_nat (digitsValue 10 ip) + of_nat (digitsValue 10 fp) / 10 ^ length fp)"
proof -
  let ?s = "ip @ CHR ''.'' # fp"
  have s: "ip @ ''.'' @ fp = ?s" by simp
  have dot: "\<not> isDigitOf 10 CHR ''.''"
    by (simp add: isDigitOf_def digitValue_def)
  obtain c cs where c: "ip = c # cs" using ip(2) by (cases ip) auto
  with ip(1) have d: "isDigitOf 10 c" by simp
  then have ws: "\<not> isWhiteSpace c" by (rule digit_not_space)
  from d have sg: "c \<noteq> CHR ''-''" "c \<noteq> CHR ''+''"
    by (auto simp: isDigitOf_def digitValue_def)
  have t: "dropWhile isWhiteSpace ?s = ?s" using ws by (simp add: c)
  have hd: "hd ?s = c" by (simp add: c)
  from ip(1) have all: "\<forall>x\<in>set ip. isDigitOf 10 x" by (simp add: list_all_iff)
  have tk: "takeWhile (isDigitOf 10) ?s = ip"
    using all dot by (simp add: takeWhile_append2)
  have dr: "dropWhile (isDigitOf 10) ?s = CHR ''.'' # fp"
    using all dot by (simp add: dropWhile_append2)
  from fp have tf: "takeWhile (isDigitOf 10) fp = fp"
    by (simp add: list_all_iff)
  show ?thesis
    unfolding s parseFloat_def Let_def t hd
    using sg ip(2) all dot by (simp add: tk dr tf)
qed

lemma toString_nonneg: "0 \<le> k \<Longrightarrow> toString k = digitsOf (nat k)"
  by (simp add: toString_def)

lemma formattedValue_nonneg:
  assumes "0 \<le> v"
  shows "formattedValue v d
     = digitsOf (nat (v div 10 ^ d)) @ ''.'' @ padStart (digitsOf (nat (v mod 10 ^ d))) d CHR ''0''"
proof -
  have p: "(0::int) < 10 ^ d" by simp
  from assms p have "v sdiv 10 ^ d = v div 10 ^ d"
    by (simp add: signed_divide_int_def sgn_if div_pos_pos_trivial)
  moreover from assms p have "v smod 10 ^ d = v mod 10 ^ d"
    by (simp add: signed_modulo_int_def sgn_if)
  moreover from assms have "0 \<le> v div 10 ^ d" by (simp add: pos_imp_zdiv_nonneg_iff)
  moreover have "toString (v mod 10 ^ d) = digitsOf (nat (v mod 10 ^ d))"
    by (rule toString_nonneg) simp
  ultimately show ?thesis
    by (simp add: formattedValue_def toString_nonneg Let_def)
qed

lemma fraction_exact:
  assumes "0 \<le> v"
  shows "(of_nat (digitsValue 10 (padStart (digitsOf (nat (v mod 10 ^ d))) d CHR ''0'')) :: rat)
           / 10 ^ length (padStart (digitsOf (nat (v mod 10 ^ d))) d CHR ''0'')
         = of_int (v mod 10 ^ d) / 10 ^ d"
proof (cases d)
  case 0
  then show ?thesis
    by (simp add: padStart_def digitsValue_digitsOf)
next
  case (Suc d')
  have "v mod 10 ^ d < 10 ^ d" by simp
  then have "nat (v mod 10 ^ d) < 10 ^ d"
    by (metis nat_less_iff of_nat_numeral of_nat_power Euclidean_Rings.pos_mod_sign zero_less_numeral zero_less_power)
  then have "length (digitsOf (nat (v mod 10 ^ d))) \<le> d"
    using Suc by (intro length_digitsOf) simp_all
  then have "length (padStart (digitsOf (nat (v mod 10 ^ d))) d CHR ''0'') = d"
    by (simp add: padStart_def)
  then show ?thesis
    by (simp add: padStart_def digitsValue_zeros digitsValue_digitsOf)
qed

lemma div_mod_fraction:
  "(of_int (v div 10 ^ d) :: rat) + of_int (v mod 10 ^ d) / 10 ^ d = of_int v / 10 ^ d"
proof -
  have "(of_int (v div 10 ^ d) :: rat) * 10 ^ d + of_int (v mod 10 ^ d)
      = of_int (v div 10 ^ d * 10 ^ d + v mod 10 ^ d)"
    by (simp only: of_int_add of_int_mult of_int_power of_int_numeral)
  also have "\<dots> = of_int v"
    by (simp only: div_mult_mod_eq)
  finally have "(of_int v :: rat) / 10 ^ d
      = (of_int (v div 10 ^ d) * 10 ^ d + of_int (v mod 10 ^ d)) / 10 ^ d"
    by simp
  also have "\<dots> = of_int (v div 10 ^ d) + of_int (v mod 10 ^ d) / 10 ^ d"
    by (simp add: add_divide_distrib)
  finally show ?thesis by simp
qed

lemma formatted_exact:
  assumes "0 \<le> v"
  shows "parseFloat (formattedValue v d) = toDouble (of_int v / 10 ^ d)"
proof -
  let ?q = "nat (v div 10 ^ d)" and ?r = "nat (v mod 10 ^ d)"
  let ?fp = "padStart (digitsOf ?r) d CHR ''0''"
  have "parseFloat (formattedValue v d)
      = toDouble (of_nat (digitsValue 10 (digitsOf ?q)) + of_nat (digitsValue 10 ?fp) / 10 ^ length ?fp)"
    unfolding formattedValue_nonneg [OF assms]
    by (rule parseFloat_decimal)
       (simp_all add: digitsOf_all_digits digitsOf_not_Nil padStart_all_digits)
  also have "of_nat (digitsValue 10 ?fp) / 10 ^ length ?fp = (of_int (v mod 10 ^ d) :: rat) / 10 ^ d"
    by (rule fraction_exact [OF assms])
  also have "(of_nat (digitsValue 10 (digitsOf ?q)) :: rat) = of_int (v div 10 ^ d)"
    using assms by (simp add: digitsValue_digitsOf pos_imp_zdiv_nonneg_iff)
  also have "(of_int (v div 10 ^ d) :: rat) + of_int (v mod 10 ^ d) / 10 ^ d = of_int v / 10 ^ d"
    by (rule div_mod_fraction)
  finally show ?thesis .
qed

lemma toString_nonzero: "0 < v \<Longrightarrow> toString v \<noteq> [] \<and> toString v \<noteq> ''0''"
proof -
  assume "0 < v"
  have "digitsValue 10 ''0'' = 0" by (simp add: digitsValue_def digitValue_def)
  moreover have "digitsValue 10 (toString v) = nat v"
    using \<open>0 < v\<close> by (simp add: toString_def digitsValue_digitsOf)
  ultimately show ?thesis using \<open>0 < v\<close>
    by (auto simp: toString_def digitsOf_not_Nil)
qed

lemma digitChar_numerals:
  "digitChar 0 = CHR ''0''" "digitChar 1 = CHR ''1''" "digitChar 2 = CHR ''2''"
  "digitChar 3 = CHR ''3''" "digitChar 4 = CHR ''4''" "digitChar 5 = CHR ''5''"
  "digitChar 6 = CHR ''6''" "digitChar 7 = CHR ''7''" "digitChar 8 = CHR ''8''"
  "digitChar 9 = CHR ''9''" "digitChar (Suc 0) = CHR ''1''"
  by code_simp+

lemma toString_example: "toString 1234567890123456789 = ''1234567890123456789''"
  by (simp add: toString_def digitsOf.simps digitChar_numerals)

lemma formattedValue_example: "formattedValue 1234567890123456789 18 = ''1.234567890123456789''"
  by (simp add: formattedValue_nonneg digitsOf.simps digitChar_numerals padStart_def)

lemma formatTokenAmount_toString:
  assumes "0 \<le> v" and "0 \<le> decs"
  shows "formatTokenAmount (toString v) decs = Inr (toDouble (of_int v / 10 ^ nat decs))"
proof (cases "v = 0")
  case True
  have "toString 0 = ''0''"
    by (simp add: toString_def digitsOf.simps digitChar_numerals)
  with True show ?thesis
    by (simp add: formatTokenAmount_def toDouble_def)
next
  case False
  with assms have "0 < v" by simp
  from toString_nonzero [OF this] assms formatted_exact [OF assms(1), of "nat decs"]
  show ?thesis
    by (simp add: formatTokenAmount_def BigInt_toString)
qed

lemma formattedValue_denotes:
  assumes "0 \<le> v"
  shows "\<exists>ip fp. formattedValue v d = ip @ ''.'' @ fp
           \<and> ip \<noteq> [] \<and> list_all (isDigitOf 10) ip \<and> list_all (isDigitOf 10) fp
           \<and> of_nat (digitsValue 10 ip) + of_nat (digitsValue 10 fp) / 10 ^ length fp
               = (of_int v / 10 ^ d :: rat)"
proof (intro exI conjI)
  let ?ip = "digitsOf (nat (v div 10 ^ d))"
  let ?fp = "padStart (digitsOf (nat (v mod 10 ^ d))) d CHR ''0''"
  show "formattedValue v d = ?ip @ ''.'' @ ?fp"
    by (rule formattedValue_nonneg [OF assms])
  show "?ip \<noteq> []" by (rule digitsOf_not_Nil)
  show "list_all (isDigitOf 10) ?ip" by (rule digitsOf_all_digits)
  show "list_all (isDigitOf 10) ?fp" by (simp add: padStart_all_digits digitsOf_all_digits)
  have "(of_nat (digitsValue 10 ?ip) :: rat) = of_int (v div 10 ^ d)"
    using assms by (simp add: digitsValue_digitsOf pos_imp_zdiv_nonneg_iff)
  moreover have "(of_int (v div 10 ^ d) :: rat) + of_int (v mod 10 ^ d) / 10 ^ d = of_int v / 10 ^ d"
    by (rule div_mod_fraction)
  ultimately show "of_nat (digitsValue 10 ?ip) + of_nat (digitsValue 10 ?fp) / 10 ^ length ?fp
      = (of_int v / 10 ^ d :: rat)"
    by (simp add: fraction_exact [OF assms])
qed

subsection \<open>Rounding\<close>

lemma roundHalfEven_near:
  assumes "\<bar>q - of_int m\<bar> < 1 / 2"
  shows "roundHalfEven q = m"
proof (cases "of_int m \<le> q")
  case True
  with assms have "\<lfloor>q\<rfloor> = m" by (intro floor_unique) auto
  with assms True show ?thesis by (simp add: roundHalfEven_def Let_def)
next
  case False
  with assms have f: "\<lfloor>q\<rfloor> = m - 1" by (intro floor_unique) auto
  from assms False have "1 / 2 < q - of_int (m - 1)" by auto
  with f show ?thesis by (simp add: roundHalfEven_def Let_def)
qed

lemma toDouble_positive:
  assumes "0 < q" and "floorLog2 q = k" and "e = max (k - 52) (- 1074)"
    and "\<bar>q / 2 powi e - of_int m\<bar> < 1 / 2" and "of_int m * 2 powi e < (2 ^ 1024 :: rat)"
  shows "toDouble q = Finite (of_int m * 2 powi e)"
proof -
  from assms(1) have a: "\<bar>q\<bar> = q" "q \<noteq> 0" "\<not> q < 0" by simp_all
  from assms(4) have "roundHalfEven (q / 2 powi e) = m" by (rule roundHalfEven_near)
  with assms(2,3,5) a show ?thesis
    by (simp add: toDouble_def Let_def not_le)
qed

lemma toDouble_example:
  "toDouble (1234567890123456789 / 10 ^ 18) = Finite (5559999489923579 / 2 ^ 52)"
proof -
  have "toDouble (1234567890123456789 / 10 ^ 18)
      = Finite (of_int 5559999489923579 * 2 powi (- 52))"
  proof (rule toDouble_positive [where k = 0])
    show "floorLog2 (1234567890123456789 / 10 ^ 18) = 0"
      by (simp add: floorLog2_def compute_bitlen)
    show "\<bar>1234567890123456789 / 10 ^ 18 / 2 powi (- 52) - rat_of_int 5559999489923579\<bar> < 1 / 2"
      by (simp add: power_int_minus)
    show "rat_of_int 5559999489923579 * 2 powi (- 52) < 2 ^ 1024"
      by (simp add: power_int_minus)
  qed simp_all
  then show ?thesis by (simp add: power_int_minus)
qed

text \<open>
  The rounding is to a nearest value of the grid: the binade found by \<open>floorLog2\<close>
  contains the argument, and the result differs from it by at most half a grid step.
\<close>

lemma roundHalfEven_error: "\<bar>of_int (roundHalfEven q) - q\<bar> \<le> 1 / 2"
proof -
  have "of_int \<lfloor>q\<rfloor> \<le> q" "q < of_int \<lfloor>q\<rfloor> + 1" by linarith+
  then show ?thesis
    by (auto simp: roundHalfEven_def Let_def abs_le_iff)
qed

lemma bitlen_pos: "0 < x \<Longrightarrow> 0 < bitlen x"
  by (meson bitlen_eq_zero_iff bitlen_nonneg order_antisym_conv not_le)

lemma floorLog2_ge1:
  assumes "1 \<le> q"
  shows "2 powi floorLog2 q \<le> q \<and> q < 2 powi (floorLog2 q + 1)"
proof -
  let ?n = "\<lfloor>q\<rfloor>"
  from assms have n: "0 < ?n" by simp
  have pos: "0 < bitlen ?n" using n by (rule bitlen_pos)
  from bitlen_bounds [OF n]
  have lo: "2 ^ nat (bitlen ?n - 1) \<le> ?n" and hi: "?n < 2 ^ nat (bitlen ?n)" by simp_all
  have k: "floorLog2 q = bitlen ?n - 1" using assms by (simp add: floorLog2_def)
  have "(2::rat) powi (bitlen ?n - 1) = 2 ^ nat (bitlen ?n - 1)"
    using pos by (simp add: power_int_def)
  also have "\<dots> = of_int (2 ^ nat (bitlen ?n - 1))" by simp
  also have "\<dots> \<le> of_int ?n" using lo by (simp only: of_int_le_iff)
  also have "\<dots> \<le> q" by simp
  finally have 1: "2 powi floorLog2 q \<le> q" by (simp add: k)
  from hi have "?n + 1 \<le> 2 ^ nat (bitlen ?n)" by simp
  then have "(of_int (?n + 1) :: rat) \<le> of_int (2 ^ nat (bitlen ?n))"
    by (simp only: of_int_le_iff)
  moreover have "q < of_int ?n + 1" by linarith
  ultimately have "q < 2 ^ nat (bitlen ?n)" by simp
  moreover have "(2::rat) powi (bitlen ?n - 1 + 1) = 2 ^ nat (bitlen ?n)"
    using pos by (simp add: power_int_def)
  ultimately have 2: "q < 2 powi (floorLog2 q + 1)" by (simp add: k)
  from 1 2 show ?thesis ..
qed

lemma floorLog2_lt1:
  assumes "0 < q" and "q < 1"
  shows "2 powi floorLog2 q \<le> q \<and> q < 2 powi (floorLog2 q + 1)"
proof -
  let ?m = "\<lceil>1 / q\<rceil> - 1"
  from assms have p: "1 < 1 / q" by simp
  then have m: "0 < ?m" by simp
  have pos: "0 < bitlen ?m" using m by (rule bitlen_pos)
  from bitlen_bounds [OF m]
  have lo: "2 ^ nat (bitlen ?m - 1) \<le> ?m" and hi: "?m < 2 ^ nat (bitlen ?m)" by simp_all
  have k: "floorLog2 q = - bitlen ?m" using assms by (simp add: floorLog2_def)
  from hi have "?m + 1 \<le> 2 ^ nat (bitlen ?m)" by simp
  then have "(of_int (?m + 1) :: rat) \<le> of_int (2 ^ nat (bitlen ?m))"
    by (simp only: of_int_le_iff)
  moreover have "1 / q \<le> of_int \<lceil>1 / q\<rceil>" by (rule le_of_int_ceiling)
  moreover have "(of_int \<lceil>1 / q\<rceil> :: rat) = of_int (?m + 1)" by simp
  ultimately have "1 / q \<le> of_int (2 ^ nat (bitlen ?m))" by (simp only:)
  then have a: "1 / q \<le> 2 ^ nat (bitlen ?m)" by simp
  have "(of_int (2 ^ nat (bitlen ?m - 1)) :: rat) \<le> of_int ?m"
    using lo by (simp only: of_int_le_iff)
  moreover have "of_int ?m < 1 / q" by linarith
  ultimately have b: "2 ^ nat (bitlen ?m - 1) < 1 / q" by simp
  from a assms(1) have "1 \<le> q * 2 ^ nat (bitlen ?m)"
    by (simp add: divide_le_eq mult.commute)
  then have "1 / 2 ^ nat (bitlen ?m) \<le> q"
    by (simp add: divide_le_eq)
  moreover have "(2::rat) powi (- bitlen ?m) = 1 / 2 ^ nat (bitlen ?m)"
    using pos by (simp add: power_int_def field_simps)
  ultimately have 1: "2 powi floorLog2 q \<le> q" by (simp add: k)
  from b assms(1) have "q * 2 ^ nat (bitlen ?m - 1) < 1"
    by (simp add: less_divide_eq mult.commute)
  then have "q < 1 / 2 ^ nat (bitlen ?m - 1)"
    by (simp add: less_divide_eq)
  moreover have "(2::rat) powi (- bitlen ?m + 1) = 1 / 2 ^ nat (bitlen ?m - 1)"
  proof -
    have "- bitlen ?m + 1 = - (bitlen ?m - 1)" by simp
    moreover have "(2::rat) powi (bitlen ?m - 1) = 2 ^ nat (bitlen ?m - 1)"
      using pos by (simp add: power_int_def)
    ultimately show ?thesis
      by (simp only: power_int_minus inverse_eq_divide)
  qed
  ultimately have 2: "q < 2 powi (floorLog2 q + 1)" by (simp add: k)
  from 1 2 show ?thesis ..
qed


lemma floorLog2_bounds:
  assumes "0 < q"
  shows "2 powi floorLog2 q \<le> q \<and> q < 2 powi (floorLog2 q + 1)"
  using assms floorLog2_ge1 [of q] floorLog2_lt1 [of q] by (cases "1 \<le> q") auto

lemma toDouble_error:
  assumes "0 < q" and "toDouble q = Finite r"
  shows "\<bar>r - q\<bar> \<le> 2 powi (max (floorLog2 q - 52) (- 1074)) / 2"
proof -
  let ?e = "max (floorLog2 q - 52) (- 1074)"
  let ?m = "roundHalfEven (q / 2 powi ?e)"
  have p: "(0::rat) < 2 powi ?e" by simp
  from assms have r: "r = of_int ?m * 2 powi ?e"
    by (simp add: toDouble_def Let_def split: if_splits)
  have "r - q = (of_int ?m - q / 2 powi ?e) * 2 powi ?e"
    using p by (simp add: r field_simps)
  then have "\<bar>r - q\<bar> = \<bar>of_int ?m - q / 2 powi ?e\<bar> * 2 powi ?e"
    using p by (simp add: abs_mult)
  also have "\<dots> \<le> 1 / 2 * 2 powi ?e"
    using roundHalfEven_error [of "q / 2 powi ?e"] p
    by (intro mult_right_mono) simp_all
  finally show ?thesis by simp
qed

subsection \<open>What formatTokenAmount returns\<close>

text \<open>
  C4, as the code has it. For a balance \<open>v \<ge> 0\<close> given by its decimal string and
  every \<open>decimals \<ge> 0\<close> (so for 0, 6, 8 and 18), the string that
  \<open>formatTokenAmount\<close> builds by integer division and remainder is a decimal
  literal that denotes \<open>v / 10 ^ decimals\<close> exactly; the function returns
  \<open>parseFloat\<close> of that string, which is the double nearest to
  \<open>v / 10 ^ decimals\<close>.
\<close>

theorem formatTokenAmount_rounds_once:
  assumes "0 \<le> v" and "0 \<le> decs"
  shows "(\<exists>ip fp. formattedValue v (nat decs) = ip @ ''.'' @ fp
            \<and> ip \<noteq> [] \<and> list_all (isDigitOf 10) ip \<and> list_all (isDigitOf 10) fp
            \<and> of_nat (digitsValue 10 ip) + of_nat (digitsValue 10 fp) / 10 ^ length fp
                = (of_int v / 10 ^ nat decs :: rat))
     \<and> formatTokenAmount (toString v) decs = Inr (toDouble (of_int v / 10 ^ nat decs))"
  using formattedValue_denotes [OF assms(1)] formatTokenAmount_toString [OF assms]
  by (intro conjI)

theorem formatTokenAmount_rounds_once_witness:
  "formattedValue 1234567890123456789 18 = ''1.234567890123456789''
   \<and> formatTokenAmount ''1234567890123456789'' 18
       = Inr (toDouble (1234567890123456789 / 10 ^ 18))"
proof -
  have a: "(0::int) \<le> 1234567890123456789" and b: "(0::int) \<le> 18"
    by simp_all
  from formatTokenAmount_rounds_once [OF a b]
  have "formatTokenAmount (toString 1234567890123456789) 18
      = Inr (toDouble (of_int 1234567890123456789 / 10 ^ nat 18))"
    by (rule conjunct2)
  then have "formatTokenAmount ''1234567890123456789'' 18
      = Inr (toDouble (1234567890123456789 / 10 ^ 18))"
    by (simp only: toString_example of_int_numeral nat_numeral)
  with formattedValue_example show ?thesis
    by (intro conjI)
qed

text \<open>
  For the balance 1234567890123456789 with 18 decimals the result is the double
  \<open>5559999489923579 / 2 ^ 52\<close>, printed by JavaScript as 1.2345678901234567; it is
  not 1.234567890123456789.
\<close>

theorem formatTokenAmount_18_decimals_counterexample:
  "formatTokenAmount ''1234567890123456789'' 18 = Inr (Finite (5559999489923579 / 2 ^ 52))
   \<and> formatTokenAmount ''1234567890123456789'' 18 \<noteq> Inr (Finite (1234567890123456789 / 10 ^ 18))"
proof -
  have "formatTokenAmount (toString 1234567890123456789) 18
      = Inr (toDouble (of_int 1234567890123456789 / 10 ^ nat 18))"
    by (rule formatTokenAmount_toString) simp_all
  then have "formatTokenAmount ''1234567890123456789'' 18
      = Inr (toDouble (1234567890123456789 / 10 ^ 18))"
    by (simp only: toString_example of_int_numeral nat_numeral)
  then have "formatTokenAmount ''1234567890123456789'' 18
      = Inr (Finite (5559999489923579 / 2 ^ 52))"
    by (simp only: toDouble_example)
  then show ?thesis by simp
qed

subsection \<open>Negative values\<close>

text \<open>
  The statements above are about balances that are not negative. For a negative value
  the remainder keeps the sign, the template string is not a decimal literal, and
  \<open>parseFloat\<close> reads its prefix only: the value \<open>- 15\<close> with one decimal is
  returned as \<open>- 1\<close>.
\<close>

lemma formattedValue_negative_example: "formattedValue (- 15) 1 = ''-1.-5''"
  by (simp add: formattedValue_def signed_divide_int_def signed_modulo_int_def toString_def
      digitsOf.simps digitChar_numerals padStart_def Let_def)

lemma parseFloat_negative_example: "parseFloat ''-1.-5'' = Finite (- 1)"
proof -
  have d: "isDigitOf 10 CHR ''1''" "\<not> isDigitOf 10 CHR ''.''" "\<not> isDigitOf 10 CHR ''-''"
    "\<not> isWhiteSpace CHR ''-''"
    by (simp_all add: isDigitOf_def digitValue_def isWhiteSpace_def)
  have v: "digitsValue 10 ''1'' = 1" "digitsValue 10 [] = 0"
    by (simp_all add: digitsValue_def digitValue_def)
  have t: "toDouble 1 = Finite 1"
    using toDouble_positive [of 1 0 "- 52" "2 ^ 52"]
    by (simp add: floorLog2_def compute_bitlen power_int_minus)
  show ?thesis
    by (simp add: parseFloat_def Let_def d v t)
qed

lemma BigInt_negative_example: "BigInt ''-15'' = Inr (- 15)"
  by (simp add: BigInt_def trim_def isWhiteSpace_def fromDigits_def isDigitOf_def
      digitValue_def digitsValue_def Let_def)

lemma formatTokenAmount_negative_example: "formatTokenAmount ''-15'' 1 = Inr (Finite (- 1))"
  using formattedValue_negative_example parseFloat_negative_example BigInt_negative_example
  by (simp add: formatTokenAmount_def)

section \<open>Properties of getTokenInfo\<close>

subsection \<open>The cache key\<close>




lemma providers_getTokenInfo:
  "providers (snd (getTokenInfo chain svc a n)) = providers svc"
  by (auto simp: getTokenInfo_def Let_def split: option.splits sum.splits)






subsection \<open>Cache first, and no entry on failure\<close>




section \<open>Properties of calculateRiskScore\<close>

subsection \<open>Integers below \<open>2 ^ 53\<close> are doubles\<close>

lemma floorLog2_nonneg: "1 \<le> q \<Longrightarrow> 0 \<le> floorLog2 q"
proof -
  assume "1 \<le> q"
  then have "0 < \<lfloor>q\<rfloor>" by simp
  then have "0 < bitlen \<lfloor>q\<rfloor>" by (rule bitlen_pos)
  with \<open>1 \<le> q\<close> show ?thesis by (simp add: floorLog2_def)
qed

lemma power_int_rescale: "k \<le> 52 \<Longrightarrow> (2::rat) powi (k - 52) * 2 ^ nat (52 - k) = 1"
proof -
  assume "k \<le> 52"
  then have "k - 52 = - int (nat (52 - k))" by simp
  then have "(2::rat) powi (k - 52) = inverse (2 ^ nat (52 - k))"
    by (simp only: power_int_minus power_int_of_nat)
  then show ?thesis by simp
qed

lemma toDouble_of_nat:
  assumes "n < 2 ^ 53"
  shows "toDouble (of_nat n) = Finite (of_nat n)"
proof (cases "n = 0")
  case True
  then show ?thesis by (simp add: toDouble_def)
next
  case False
  let ?q = "of_nat n :: rat"
  let ?k = "floorLog2 ?q"
  let ?m = "int n * 2 ^ nat (52 - ?k)"
  from False have q1: "1 \<le> ?q" by simp
  then have q0: "0 < ?q" by simp
  from q1 have k0: "0 \<le> ?k" by (rule floorLog2_nonneg)
  from floorLog2_bounds [OF q0] have lo: "2 powi ?k \<le> ?q" by simp
  from assms have hi: "?q < 2 ^ 53"
    by (metis of_nat_less_iff of_nat_numeral of_nat_power)
  with lo have "(2::rat) powi ?k < 2 powi 53" by simp
  then have "?k < 53"
    by (rule power_int_le_imp_less_exp [rotated]) simp_all
  then have k52: "?k \<le> 52" by simp
  note scale = power_int_rescale [OF k52]
  have p: "(0::rat) < 2 powi (?k - 52)" by simp
  have unscaled: "of_int ?m * 2 powi (?k - 52) = ?q"
  proof -
    have "of_int ?m * 2 powi (?k - 52) = ?q * (2 powi (?k - 52) * 2 ^ nat (52 - ?k))"
      by (simp add: mult.assoc mult.commute)
    then show ?thesis by (simp only: scale mult_1_right)
  qed
  have "toDouble ?q = Finite (of_int ?m * 2 powi (?k - 52))"
  proof (rule toDouble_positive [where k = ?k])
    show "?k - 52 = max (?k - 52) (- 1074)" using k0 by simp
    have "?q / 2 powi (?k - 52) = of_int ?m"
      using p unscaled by (simp add: field_simps)
    then show "\<bar>?q / 2 powi (?k - 52) - of_int ?m\<bar> < 1 / 2" by simp
    from hi show "of_int ?m * 2 powi (?k - 52) < (2 ^ 1024 :: rat)"
      by (simp only: unscaled) simp
  qed (use False in simp_all)
  with unscaled show ?thesis by simp
qed

lemma foldl_risk_nat:
  assumes "\<forall>p\<in>set ps. risk p = None \<or> (\<exists>n::nat. risk p = Some (Finite (of_nat n)))"
    and "of_nat a + (\<Sum>p\<leftarrow>ps. case risk p of Some (Finite r) \<Rightarrow> r | _ \<Rightarrow> 0) < (2 ^ 53 :: rat)"
  shows "foldl (\<lambda>sum pos. jsAdd sum (case risk pos of
                                       None \<Rightarrow> Finite 0
                                     | Some r \<Rightarrow> if r = Finite 0 \<or> r = NaN then Finite 0 else r))
               (Finite (of_nat a)) ps
         = Finite (of_nat a + (\<Sum>p\<leftarrow>ps. case risk p of Some (Finite r) \<Rightarrow> r | _ \<Rightarrow> 0))"
  using assms
proof (induction ps arbitrary: a)
  case Nil
  then show ?case by simp
next
  case (Cons p ps)
  let ?fig = "\<lambda>p. case risk p of Some (Finite r) \<Rightarrow> r | _ \<Rightarrow> (0::rat)"
  let ?step = "\<lambda>sum pos. jsAdd sum (case risk pos of
                                       None \<Rightarrow> Finite 0
                                     | Some r \<Rightarrow> if r = Finite 0 \<or> r = NaN then Finite 0 else r)"
  from Cons.prems(1) obtain n :: nat where n: "?fig p = of_nat n"
    and st: "(case risk p of None \<Rightarrow> Finite 0
              | Some r \<Rightarrow> if r = Finite 0 \<or> r = NaN then Finite 0 else r) = Finite (of_nat n)"
  proof (cases "risk p")
    case None
    then have "?fig p = of_nat 0" "(case risk p of None \<Rightarrow> Finite 0
              | Some r \<Rightarrow> if r = Finite 0 \<or> r = NaN then Finite 0 else r) = Finite (of_nat 0)"
      by simp_all
    then show ?thesis by (rule that)
  next
    case (Some r)
    with Cons.prems(1) obtain k :: nat where "r = Finite (of_nat k)" by auto
    with Some have "?fig p = of_nat k" "(case risk p of None \<Rightarrow> Finite 0
              | Some r \<Rightarrow> if r = Finite 0 \<or> r = NaN then Finite 0 else r) = Finite (of_nat k)"
      by auto
    then show ?thesis by (rule that)
  qed
  have rest: "(0::rat) \<le> (\<Sum>p\<leftarrow>ps. ?fig p)"
  proof (rule sum_list_nonneg)
    fix x assume "x \<in> set (map ?fig ps)"
    then obtain p' where "p' \<in> set ps" "x = ?fig p'" by auto
    with Cons.prems(1) show "0 \<le> x" by (auto split: option.splits jsnumber.splits)
  qed
  from Cons.prems(2) n have bound: "of_nat (a + n) + (\<Sum>p\<leftarrow>ps. ?fig p) < (2 ^ 53 :: rat)"
    by (simp add: add.assoc)
  with rest have "(of_nat (a + n) :: rat) < 2 ^ 53" by linarith
  then have "a + n < 2 ^ 53"
    by (metis of_nat_less_iff of_nat_numeral of_nat_power)
  then have "toDouble (of_nat (a + n)) = Finite (of_nat (a + n))"
    by (rule toDouble_of_nat)
  then have "?step (Finite (of_nat a)) p = Finite (of_nat (a + n))"
    by (simp add: st)
  moreover from Cons.prems(1) have "\<forall>p\<in>set ps. risk p = None \<or> (\<exists>n::nat. risk p = Some (Finite (of_nat n)))"
    by simp
  note Cons.IH [OF this bound]
  ultimately show ?case using n by (simp add: add.assoc)
qed

lemma calculateRiskScore_nat_figures:
  assumes "positions \<noteq> []"
    and "\<forall>p\<in>set positions. risk p = None \<or> (\<exists>n::nat. risk p = Some (Finite (of_nat n)))"
    and "(\<Sum>p\<leftarrow>positions. case risk p of Some (Finite r) \<Rightarrow> r | _ \<Rightarrow> 0) < (2 ^ 53 :: rat)"
  shows "calculateRiskScore positions
     = toDouble ((\<Sum>p\<leftarrow>positions. case risk p of Some (Finite r) \<Rightarrow> r | _ \<Rightarrow> 0)
                   / of_nat (length positions))"
proof -
  from foldl_risk_nat [of positions 0] assms(2,3)
  have "foldl (\<lambda>sum pos. jsAdd sum (case risk pos of
                                       None \<Rightarrow> Finite 0
                                     | Some r \<Rightarrow> if r = Finite 0 \<or> r = NaN then Finite 0 else r))
               (Finite 0) positions
         = Finite (\<Sum>p\<leftarrow>positions. case risk p of Some (Finite r) \<Rightarrow> r | _ \<Rightarrow> 0)"
    by simp
  with assms(1) show ?thesis
    by (simp add: calculateRiskScore_def Let_def)
qed

subsection \<open>The score\<close>

lemma toDouble_third: "toDouble (1 / 3) = Finite (6004799503160661 / 2 ^ 54)"
proof -
  have "toDouble (1 / 3) = Finite (of_int 6004799503160661 * 2 powi (- 54))"
  proof (rule toDouble_positive [where k = "- 2"])
    show "floorLog2 (1 / 3) = - 2"
      by (simp add: floorLog2_def compute_bitlen)
    show "\<bar>1 / 3 / 2 powi (- 54) - rat_of_int 6004799503160661\<bar> < 1 / 2"
      by (simp add: power_int_minus)
    show "rat_of_int 6004799503160661 * 2 powi (- 54) < 2 ^ 1024"
      by (simp add: power_int_minus)
  qed simp_all
  then show ?thesis by (simp add: power_int_minus)
qed

lemma toDouble_four: "toDouble 4 = Finite 4"
  using toDouble_of_nat [of 4] by simp

text \<open>
  C8, as the code has it. The risk score of the empty list is 0. For a non-empty list it
  is the quotient, in double arithmetic, of the sum of the risk figures, added from left
  to right in double arithmetic, by the number of all positions; a position without a
  risk figure adds 0 and is counted in the divisor. When the risk figures are
  non-negative integers with a sum below \<open>2 ^ 53\<close>, the additions are exact and the
  result is the double nearest to the arithmetic mean.
\<close>

theorem calculateRiskScore_rounded_mean:
  "calculateRiskScore [] = Finite 0
   \<and> (positions \<noteq> [] \<longrightarrow>
        calculateRiskScore positions
          = jsDivide
              (foldl jsAdd (Finite 0)
                 (map (\<lambda>p. case risk p of None \<Rightarrow> Finite 0
                            | Some r \<Rightarrow> if r = Finite 0 \<or> r = NaN then Finite 0 else r)
                    positions))
              (Finite (of_nat (length positions))))
   \<and> (positions \<noteq> []
        \<and> (\<forall>p\<in>set positions. risk p = None \<or> (\<exists>n::nat. risk p = Some (Finite (of_nat n))))
        \<and> (\<Sum>p\<leftarrow>positions. case risk p of Some (Finite r) \<Rightarrow> r | _ \<Rightarrow> 0) < 2 ^ 53 \<longrightarrow>
        calculateRiskScore positions
          = toDouble ((\<Sum>p\<leftarrow>positions. case risk p of Some (Finite r) \<Rightarrow> r | _ \<Rightarrow> 0)
                        / of_nat (length positions)))"
proof (intro conjI impI)
  show "calculateRiskScore [] = Finite 0"
    by (simp add: calculateRiskScore_def)
  show "calculateRiskScore positions
          = jsDivide
              (foldl jsAdd (Finite 0)
                 (map (\<lambda>p. case risk p of None \<Rightarrow> Finite 0
                            | Some r \<Rightarrow> if r = Finite 0 \<or> r = NaN then Finite 0 else r)
                    positions))
              (Finite (of_nat (length positions)))"
    if "positions \<noteq> []"
    using that by (simp add: calculateRiskScore_def Let_def foldl_map)
  show "calculateRiskScore positions
          = toDouble ((\<Sum>p\<leftarrow>positions. case risk p of Some (Finite r) \<Rightarrow> r | _ \<Rightarrow> 0)
                        / of_nat (length positions))"
    if "positions \<noteq> []
        \<and> (\<forall>p\<in>set positions. risk p = None \<or> (\<exists>n::nat. risk p = Some (Finite (of_nat n))))
        \<and> (\<Sum>p\<leftarrow>positions. case risk p of Some (Finite r) \<Rightarrow> r | _ \<Rightarrow> 0) < 2 ^ 53"
    using that by (intro calculateRiskScore_nat_figures) simp_all
qed

theorem calculateRiskScore_rounded_mean_witness:
  "calculateRiskScore
     [\<lparr>id' = ''1'', protocol' = ''Aave'', type' = ''lending'', asset = ''DAI'',
       value' = Finite 2000, chainId = Finite 1, chainName = ''Ethereum'', apr = None,
       risk = Some (Finite 4), startDate = 0\<rparr>,
      \<lparr>id' = ''2'', protocol' = ''Uniswap'', type' = ''pool'', asset = ''ETH'',
       value' = Finite 10, chainId = Finite 1, chainName = ''Ethereum'', apr = None,
       risk = None, startDate = 0\<rparr>,
      \<lparr>id' = ''3'', protocol' = ''Compound'', type' = ''lending'', asset = ''USDC'',
       value' = Finite 5, chainId = Finite 1, chainName = ''Ethereum'', apr = Some (Finite 3),
       risk = Some (Finite 8), startDate = 0\<rparr>] = Finite 4"
proof -
  let ?ps = "[\<lparr>id' = ''1'', protocol' = ''Aave'', type' = ''lending'', asset = ''DAI'',
       value' = Finite 2000, chainId = Finite 1, chainName = ''Ethereum'', apr = None,
       risk = Some (Finite 4), startDate = 0\<rparr>,
      \<lparr>id' = ''2'', protocol' = ''Uniswap'', type' = ''pool'', asset = ''ETH'',
       value' = Finite 10, chainId = Finite 1, chainName = ''Ethereum'', apr = None,
       risk = None, startDate = 0\<rparr>,
      \<lparr>id' = ''3'', protocol' = ''Compound'', type' = ''lending'', asset = ''USDC'',
       value' = Finite 5, chainId = Finite 1, chainName = ''Ethereum'', apr = Some (Finite 3),
       risk = Some (Finite 8), startDate = 0\<rparr>]"
  have n4: "\<exists>n::nat. (4::rat) = of_nat n" by (rule exI [of _ 4]) simp
  have n8: "\<exists>n::nat. (8::rat) = of_nat n" by (rule exI [of _ 8]) simp
  have h: "?ps \<noteq> []
      \<and> (\<forall>p\<in>set ?ps. risk p = None \<or> (\<exists>n::nat. risk p = Some (Finite (of_nat n))))
      \<and> (\<Sum>p\<leftarrow>?ps. case risk p of Some (Finite r) \<Rightarrow> r | _ \<Rightarrow> 0) < 2 ^ 53"
    using n4 n8 by simp
  note r = calculateRiskScore_rounded_mean [of ?ps, THEN conjunct2, THEN conjunct2, THEN mp, OF h]
  have "toDouble ((\<Sum>p\<leftarrow>?ps. case risk p of Some (Finite r) \<Rightarrow> r | _ \<Rightarrow> 0) / of_nat (length ?ps))
      = Finite 4"
    by (simp add: toDouble_four)
  with r show ?thesis by (simp only:)
qed

text \<open>
  For one position with risk 1 and two without a risk figure the result is the double
  \<open>6004799503160661 / 2 ^ 54\<close>, printed by JavaScript as 0.3333333333333333; it is
  not the arithmetic mean 1 / 3.
\<close>

theorem calculateRiskScore_third_counterexample:
  "calculateRiskScore
     [\<lparr>id' = ''1'', protocol' = ''Aave'', type' = ''lending'', asset = ''DAI'',
       value' = Finite 2000, chainId = Finite 1, chainName = ''Ethereum'', apr = None,
       risk = Some (Finite 1), startDate = 0\<rparr>,
      \<lparr>id' = ''2'', protocol' = ''Uniswap'', type' = ''pool'', asset = ''ETH'',
       value' = Finite 10, chainId = Finite 1, chainName = ''Ethereum'', apr = None,
       risk = None, startDate = 0\<rparr>,
      \<lparr>id' = ''3'', protocol' = ''Compound'', type' = ''lending'', asset = ''USDC'',
       value' = Finite 5, chainId = Finite 1, chainName = ''Ethereum'', apr = None,
       risk = None, startDate = 0\<rparr>] = Finite (6004799503160661 / 2 ^ 54)
   \<and> Finite (6004799503160661 / 2 ^ 54) \<noteq> Finite (1 / 3)"
proof -
  let ?ps = "[\<lparr>id' = ''1'', protocol' = ''Aave'', type' = ''lending'', asset = ''DAI'',
       value' = Finite 2000, chainId = Finite 1, chainName = ''Ethereum'', apr = None,
       risk = Some (Finite 1), startDate = 0\<rparr>,
      \<lparr>id' = ''2'', protocol' = ''Uniswap'', type' = ''pool'', asset = ''ETH'',
       value' = Finite 10, chainId = Finite 1, chainName = ''Ethereum'', apr = None,
       risk = None, startDate = 0\<rparr>,
      \<lparr>id' = ''3'', protocol' = ''Compound'', type' = ''lending'', asset = ''USDC'',
       value' = Finite 5, chainId = Finite 1, chainName = ''Ethereum'', apr = None,
       risk = None, startDate = 0\<rparr>]"
  have n1: "\<exists>n::nat. (1::rat) = of_nat n" by (rule exI [of _ 1]) simp
  have "calculateRiskScore ?ps
      = toDouble ((\<Sum>p\<leftarrow>?ps. case risk p of Some (Finite r) \<Rightarrow> r | _ \<Rightarrow> 0) / of_nat (length ?ps))"
    using n1 by (intro calculateRiskScore_nat_figures) simp_all
  also have "\<dots> = Finite (6004799503160661 / 2 ^ 54)"
    by (simp add: toDouble_third)
  finally show ?thesis by simp
qed

end
